theory Spec2Isabelle
  imports Complex_Main "HOL-Library.AList"
begin

section \<open>Walking-time annotation of drawn lines (src/main.js)\<close>

text \<open>
  JavaScript numbers are modelled as real numbers: \<open>+\<close>, \<open>*\<close> and \<open>/\<close> are exact, and a
  division whose divisor is zero (which in JavaScript yields NaN or an infinity instead of
  raising) is written out as a separate outcome wherever the source can reach one.
  The line counter and the minute counts are integral numbers far below 2^53 and are
  modelled as \<open>nat\<close> and \<open>int\<close>.

  \<open>distanceTo\<close> is Leaflet's distance between two coordinates, in metres. It is not part
  of the repository, so every function that calls it takes it as the parameter \<open>distanceTo\<close>.
\<close>

subsection \<open>Constants\<close>

definition WALKING_SPEED_FT_PER_SEC :: real where
  "WALKING_SPEED_FT_PER_SEC = 3"

definition METERS_TO_FEET :: real where
  "METERS_TO_FEET = 328084 / 100000"

definition LINE_COLORS :: "string list" where
  "LINE_COLORS = [''#3388ff'', ''#ff6b6b'', ''#4ecdc4'', ''#45b7d1'',
                  ''#96ceb4'', ''#ffeaa7'', ''#dfe6e9'', ''#fd79a8'']"

definition MAX_UNDO :: nat where
  "MAX_UNDO = 10"

subsection \<open>Coordinates and number printing\<close>

record latlng =
  lat :: real
  lng :: real

type_synonym distance = "latlng \<Rightarrow> latlng \<Rightarrow> real"

definition digit_char :: "nat \<Rightarrow> char" where
  "digit_char d = ''0123456789'' ! d"

text \<open>Decimal digits of a natural number, as a template literal prints an integral number.\<close>

fun string_of_nat :: "nat \<Rightarrow> string" where
  "string_of_nat n =
     (if n < 10 then [digit_char n]
      else string_of_nat (n div 10) @ [digit_char (n mod 10)])"

declare string_of_nat.simps [simp del]

definition string_of_int :: "int \<Rightarrow> string" where
  "string_of_int i =
     (if i < 0 then CHR ''-'' # string_of_nat (nat (- i)) else string_of_nat (nat i))"

text \<open>
  Reading a decimal numeral: the number that a string of digits denotes. It is used to say
  what the printed minute count is.
\<close>

definition digit_value :: "char \<Rightarrow> nat" where
  "digit_value c = of_char c - 48"

definition decimal_value :: "string \<Rightarrow> nat" where
  "decimal_value digits = foldl (\<lambda>a c. 10 * a + digit_value c) 0 digits"

text \<open>\<open>Math.round\<close>: the nearest integer, a tie going to the larger one.\<close>

definition Math_round :: "real \<Rightarrow> int" where
  "Math_round x = \<lfloor>x + 1 / 2\<rfloor>"

subsection \<open>Distance and time formatting\<close>

text \<open>The loop of \<open>calculateDistance\<close>: adds the length of every consecutive pair.\<close>

fun totalMeters_loop :: "distance \<Rightarrow> latlng list \<Rightarrow> real \<Rightarrow> real" where
  "totalMeters_loop distanceTo (a # b # rest) totalMeters =
     totalMeters_loop distanceTo (b # rest) (totalMeters + distanceTo a b)"
| "totalMeters_loop distanceTo _ totalMeters = totalMeters"

definition calculateDistance :: "distance \<Rightarrow> latlng list \<Rightarrow> real" where
  "calculateDistance distanceTo latlngs =
     totalMeters_loop distanceTo latlngs 0 * METERS_TO_FEET"

definition formatTime :: "real \<Rightarrow> string" where
  "formatTime seconds =
     (let mins = Math_round (seconds / 60)
      in if mins = 0 then ''<1m'' else string_of_int mins @ ''m'')"

definition formatTimeLong :: "real \<Rightarrow> string" where
  "formatTimeLong seconds =
     (let mins = Math_round (seconds / 60)
      in if mins = 0 then ''<1 min''
         else if mins = 1 then ''1 min''
         else string_of_int mins @ '' min'')"

subsection \<open>getMidpoint\<close>

record segment =
  seg_start :: latlng
  seg_end :: latlng
  seg_length :: real

text \<open>
  What \<open>getMidpoint\<close> returns: \<open>null\<close>, a coordinate, or a coordinate whose components are
  not finite numbers because the interpolation ratio was computed with divisor zero.
\<close>

datatype midpoint = MidNull | MidPoint latlng | MidNotFinite

text \<open>The first loop: the list of segments with their lengths.\<close>

fun segments_of :: "distance \<Rightarrow> latlng list \<Rightarrow> segment list" where
  "segments_of distanceTo (a # b # rest) =
     \<lparr>seg_start = a, seg_end = b, seg_length = distanceTo a b\<rparr>
       # segments_of distanceTo (b # rest)"
| "segments_of distanceTo _ = []"

fun totalLength_loop :: "segment list \<Rightarrow> real \<Rightarrow> real" where
  "totalLength_loop [] totalLength = totalLength"
| "totalLength_loop (seg # segs) totalLength =
     totalLength_loop segs (totalLength + seg_length seg)"

text \<open>
  The second loop: the first segment at which the accumulated length reaches the middle
  distance, with the length accumulated before it; \<open>None\<close> when the loop runs to its end.
\<close>

fun mid_segment :: "real \<Rightarrow> real \<Rightarrow> segment list \<Rightarrow> (segment \<times> real) option" where
  "mid_segment midDistance accumulated [] = None"
| "mid_segment midDistance accumulated (seg # segs) =
     (if accumulated + seg_length seg \<ge> midDistance then Some (seg, accumulated)
      else mid_segment midDistance (accumulated + seg_length seg) segs)"

definition interpolate :: "segment \<Rightarrow> real \<Rightarrow> latlng" where
  "interpolate seg ratio =
     \<lparr>lat = lat (seg_start seg) + (lat (seg_end seg) - lat (seg_start seg)) * ratio,
      lng = lng (seg_start seg) + (lng (seg_end seg) - lng (seg_start seg)) * ratio\<rparr>"

definition getMidpoint :: "distance \<Rightarrow> latlng list \<Rightarrow> midpoint" where
  "getMidpoint distanceTo latlngs =
     (if length latlngs = 0 then MidNull
      else if length latlngs = 1 then MidPoint (latlngs ! 0)
      else
        let segments = segments_of distanceTo latlngs;
            totalLength = totalLength_loop segments 0;
            midDistance = totalLength / 2
        in case mid_segment midDistance 0 segments of
             Some (seg, accumulated) \<Rightarrow>
               if seg_length seg = 0 then MidNotFinite
               else MidPoint (interpolate seg ((midDistance - accumulated) / seg_length seg))
           | None \<Rightarrow> MidPoint (latlngs ! (length latlngs div 2)))"

text \<open>
  A planar distance on degrees (the sum of the coordinate differences), used to run the
  functions on concrete paths.
\<close>

definition planar :: distance where
  "planar a b = \<bar>lat a - lat b\<bar> + \<bar>lng a - lng b\<bar>"

subsection \<open>Labels of a line\<close>

record label =
  label_pos :: latlng
  label_class :: string
  label_text :: string
  label_color :: string

definition createSegmentLabel :: "latlng \<Rightarrow> string \<Rightarrow> string \<Rightarrow> label" where
  "createSegmentLabel latlng txt color =
     \<lparr>label_pos = latlng, label_class = ''line-label'', label_text = txt, label_color = color\<rparr>"

definition createTotalLabel :: "latlng \<Rightarrow> string \<Rightarrow> string \<Rightarrow> label" where
  "createTotalLabel latlng txt color =
     \<lparr>label_pos = latlng, label_class = ''line-label total-label'',
      label_text = ''Total: '' @ txt, label_color = color\<rparr>"

definition getSegmentMidpoint :: "latlng \<Rightarrow> latlng \<Rightarrow> latlng" where
  "getSegmentMidpoint start end' =
     \<lparr>lat = (lat start + lat end') / 2, lng = (lng start + lng end') / 2\<rparr>"

text \<open>
  The segment loop of \<open>updateLineLabel\<close>: it carries \<open>totalFeet\<close> and the labels pushed so far.
\<close>

fun segment_loop ::
  "distance \<Rightarrow> string \<Rightarrow> latlng list \<Rightarrow> real \<Rightarrow> label list \<Rightarrow> real \<times> label list" where
  "segment_loop distanceTo color (a # b # rest) totalFeet labels =
     (let segmentMeters = distanceTo a b;
          segmentFeet = segmentMeters * METERS_TO_FEET;
          segmentSeconds = segmentFeet / WALKING_SPEED_FT_PER_SEC;
          midpoint = getSegmentMidpoint a b;
          label = createSegmentLabel midpoint (formatTime segmentSeconds) color
      in segment_loop distanceTo color (b # rest) (totalFeet + segmentFeet) (labels @ [label]))"
| "segment_loop distanceTo color _ totalFeet labels = (totalFeet, labels)"

text \<open>
  The labels \<open>updateLineLabel\<close> leaves on a line with the given coordinates and colour:
  none below two coordinates, otherwise one per segment and the total label at the end.
\<close>

definition line_labels :: "distance \<Rightarrow> latlng list \<Rightarrow> string \<Rightarrow> label list" where
  "line_labels distanceTo latlngs color =
     (if length latlngs < 2 then []
      else
        let (totalFeet, labels) = segment_loop distanceTo color latlngs 0 [];
            totalSeconds = totalFeet / WALKING_SPEED_FT_PER_SEC;
            endPoint = latlngs ! (length latlngs - 1);
            totalLabel = createTotalLabel endPoint (formatTime totalSeconds) color
        in labels @ [totalLabel])"

subsection \<open>The registry of lines and the undo stack\<close>

text \<open>
  A line's \<open>polyline\<close> is the coordinate list of its Leaflet layer; the draw tool makes
  plain polylines, whose coordinate list is flat. The \<open>Map\<close> of lines keeps insertion order
  and is an association list: \<open>AList.update\<close> is \<open>Map.set\<close>, \<open>AList.delete\<close> is \<open>Map.delete\<close>,
  \<open>map_of\<close> is \<open>Map.get\<close>. The Leaflet layer groups and the sidebar only display this state.
\<close>

record lineData =
  polyline :: "latlng list"
  labels :: "label list"
  color :: string
  number :: nat

datatype action =
  Create string
| Delete string "latlng list" string nat

record state =
  lines :: "(string \<times> lineData) list"
  undoStack :: "action list"
  lineCounter :: nat

definition initial_state :: state where
  "initial_state = \<lparr>lines = [], undoStack = [], lineCounter = 0\<rparr>"

definition lineId_of :: "nat \<Rightarrow> string" where
  "lineId_of n = ''line-'' @ string_of_nat n"

definition pushUndo :: "action \<Rightarrow> state \<Rightarrow> state" where
  "pushUndo act s =
     (let pushed = undoStack s @ [act]
      in s\<lparr>undoStack := (if length pushed > MAX_UNDO then tl pushed else pushed)\<rparr>)"

definition updateLineLabel :: "distance \<Rightarrow> string \<Rightarrow> state \<Rightarrow> state" where
  "updateLineLabel distanceTo lineId s =
     (case map_of (lines s) lineId of
        None \<Rightarrow> s
      | Some lineData \<Rightarrow>
          s\<lparr>lines := AList.update lineId
              (lineData\<lparr>labels := line_labels distanceTo (polyline lineData) (color lineData)\<rparr>)
              (lines s)\<rparr>)"

definition removeLineFromMap :: "string \<Rightarrow> state \<Rightarrow> state" where
  "removeLineFromMap lineId s =
     (case map_of (lines s) lineId of
        None \<Rightarrow> s
      | Some lineData \<Rightarrow> s\<lparr>lines := AList.delete lineId (lines s)\<rparr>)"

definition deleteLine :: "string \<Rightarrow> state \<Rightarrow> state" where
  "deleteLine lineId s =
     (case map_of (lines s) lineId of
        None \<Rightarrow> s
      | Some lineData \<Rightarrow>
          removeLineFromMap lineId
            (pushUndo (Delete lineId (polyline lineData) (color lineData) (number lineData)) s))"

definition restoreLine :: "distance \<Rightarrow> latlng list \<Rightarrow> string \<Rightarrow> nat \<Rightarrow> state \<Rightarrow> state" where
  "restoreLine distanceTo latlngs col num s =
     (let lineId = lineId_of num
      in updateLineLabel distanceTo lineId
           (s\<lparr>lines := AList.update lineId
                \<lparr>polyline = latlngs, labels = [], color = col, number = num\<rparr> (lines s)\<rparr>))"

subsection \<open>Event handlers\<close>

definition on_created :: "distance \<Rightarrow> latlng list \<Rightarrow> state \<Rightarrow> state" where
  "on_created distanceTo latlngs s =
     (let counter = lineCounter s + 1;
          lineId = lineId_of counter;
          col = LINE_COLORS ! ((counter - 1) mod length LINE_COLORS);
          lineData = \<lparr>polyline = latlngs, labels = [], color = col, number = counter\<rparr>;
          s1 = s\<lparr>lineCounter := counter, lines := AList.update lineId lineData (lines s)\<rparr>;
          s2 = pushUndo (Create lineId) s1
      in updateLineLabel distanceTo lineId s2)"

text \<open>
  An edit: the draw tool has written the new coordinates into the layer the registry holds
  for the line (nothing happens to the registry when it holds no such line), and the handler
  recomputes that line's labels.
\<close>

definition setLatLngs :: "string \<Rightarrow> latlng list \<Rightarrow> state \<Rightarrow> state" where
  "setLatLngs lineId latlngs s =
     (case map_of (lines s) lineId of
        None \<Rightarrow> s
      | Some lineData \<Rightarrow>
          s\<lparr>lines := AList.update lineId (lineData\<lparr>polyline := latlngs\<rparr>) (lines s)\<rparr>)"

definition on_edited :: "distance \<Rightarrow> (string \<times> latlng list) list \<Rightarrow> state \<Rightarrow> state" where
  "on_edited distanceTo layers s =
     fold (\<lambda>(lineId, latlngs) s'. updateLineLabel distanceTo lineId (setLatLngs lineId latlngs s'))
       layers s"

definition on_deleted :: "string list \<Rightarrow> state \<Rightarrow> state" where
  "on_deleted lineIds s =
     fold (\<lambda>lineId s'. s'\<lparr>lines := AList.delete lineId (lines s')\<rparr>) lineIds s"

definition on_clear :: "state \<Rightarrow> state" where
  "on_clear s = s\<lparr>lines := []\<rparr>"

definition on_undo :: "distance \<Rightarrow> state \<Rightarrow> state" where
  "on_undo distanceTo s =
     (if length (undoStack s) = 0 then s
      else
        let act = last (undoStack s);
            s1 = s\<lparr>undoStack := butlast (undoStack s)\<rparr>
        in case act of
             Create lineId \<Rightarrow> removeLineFromMap lineId s1
           | Delete lineId latlngs col num \<Rightarrow> restoreLine distanceTo latlngs col num s1)"

datatype event =
  Created "latlng list"
| Edited "(string \<times> latlng list) list"
| Deleted "string list"
| DeleteClick string
| ClearClick
| UndoKey

fun handle :: "distance \<Rightarrow> event \<Rightarrow> state \<Rightarrow> state" where
  "handle distanceTo (Created latlngs) s = on_created distanceTo latlngs s"
| "handle distanceTo (Edited layers) s = on_edited distanceTo layers s"
| "handle distanceTo (Deleted lineIds) s = on_deleted lineIds s"
| "handle distanceTo (DeleteClick lineId) s = deleteLine lineId s"
| "handle distanceTo ClearClick s = on_clear s"
| "handle distanceTo UndoKey s = on_undo distanceTo s"

text \<open>The states the program reaches: the handlers run one after another from the start.\<close>

definition run :: "distance \<Rightarrow> event list \<Rightarrow> state" where
  "run distanceTo events = fold (handle distanceTo) events initial_state"


text \<open>The number of lines the draw tool has finished in a sequence of events.\<close>

fun creations :: "event list \<Rightarrow> nat" where
  "creations [] = 0"
| "creations (Created latlngs # events) = Suc (creations events)"
| "creations (_ # events) = creations events"

subsection \<open>What holds of every reachable state\<close>

text \<open>
  A registered line is stored under the identifier made from its number, its number is
  between 1 and the counter, its colour is the palette entry of its number, and its labels
  are the ones computed from its coordinates. A \<open>delete\<close> entry of the undo stack
  satisfies the same for the data it saved.
\<close>

definition line_ok :: "distance \<Rightarrow> nat \<Rightarrow> string \<Rightarrow> lineData \<Rightarrow> bool" where
  "line_ok distanceTo counter lineId l \<longleftrightarrow>
     lineId = lineId_of (number l) \<and> 1 \<le> number l \<and> number l \<le> counter \<and>
     color l = LINE_COLORS ! ((number l - 1) mod length LINE_COLORS) \<and>
     labels l = line_labels distanceTo (polyline l) (color l)"

fun action_ok :: "nat \<Rightarrow> action \<Rightarrow> bool" where
  "action_ok counter (Create lineId) = True"
| "action_ok counter (Delete lineId latlngs col num) =
     (lineId = lineId_of num \<and> 1 \<le> num \<and> num \<le> counter \<and>
      col = LINE_COLORS ! ((num - 1) mod length LINE_COLORS))"

definition invariant :: "distance \<Rightarrow> state \<Rightarrow> bool" where
  "invariant distanceTo s \<longleftrightarrow>
     (\<forall>lineId l. map_of (lines s) lineId = Some l \<longrightarrow> line_ok distanceTo (lineCounter s) lineId l) \<and>
     (\<forall>act \<in> set (undoStack s). action_ok (lineCounter s) act) \<and>
     length (undoStack s) \<le> MAX_UNDO"

section \<open>Auxiliary facts\<close>

subsection \<open>Printing numbers is injective\<close>

lemma digit_char_inj: "a < 10 \<Longrightarrow> b < 10 \<Longrightarrow> digit_char a = digit_char b \<Longrightarrow> a = b"
proof -
  assume a: "a < 10" and b: "b < 10" and e: "digit_char a = digit_char b"
  have d: "distinct ''0123456789''" by simp
  have l: "length ''0123456789'' = 10" by simp
  from e have "''0123456789'' ! a = ''0123456789'' ! b" by (simp only: digit_char_def)
  with d a b l show ?thesis by (metis nth_eq_iff_index_eq)
qed

lemma string_of_nat_nonempty: "string_of_nat n \<noteq> []"
  by (subst string_of_nat.simps) simp

lemma string_of_nat_inj: "string_of_nat n = string_of_nat m \<Longrightarrow> n = m"
proof (induction n arbitrary: m rule: string_of_nat.induct)
  case (1 n)
  show ?case
  proof (cases "n < 10")
    case n: True
    show ?thesis
    proof (cases "m < 10")
      case True
      with n "1.prems" show ?thesis
        by (simp add: string_of_nat.simps [of n] string_of_nat.simps [of m] digit_char_inj)
    next
      case False
      with n "1.prems" show ?thesis
        using string_of_nat_nonempty [of "m div 10"]
        by (simp add: string_of_nat.simps [of n] string_of_nat.simps [of m])
    qed
  next
    case n: False
    show ?thesis
    proof (cases "m < 10")
      case True
      with n "1.prems" show ?thesis
        using string_of_nat_nonempty [of "n div 10"]
        by (simp add: string_of_nat.simps [of n] string_of_nat.simps [of m])
    next
      case False
      with n "1.prems" have e: "string_of_nat (n div 10) = string_of_nat (m div 10)"
        and d: "digit_char (n mod 10) = digit_char (m mod 10)"
        by (simp_all add: string_of_nat.simps [of n] string_of_nat.simps [of m])
      from "1.IH" [OF n e] have "n div 10 = m div 10" .
      moreover from d have "n mod 10 = m mod 10" by (simp add: digit_char_inj)
      ultimately show ?thesis by (metis div_mult_mod_eq)
    qed
  qed
qed

lemma lineId_of_inj: "lineId_of n = lineId_of m \<longleftrightarrow> n = m"
  by (auto simp: lineId_of_def dest: string_of_nat_inj)

lemma delete_update_fresh: "map_of al k = None \<Longrightarrow> AList.delete k (AList.update k v al) = al"
  by (induction al) (auto split: if_splits)

lemma length_LINE_COLORS: "length LINE_COLORS = 8"
  by (simp add: LINE_COLORS_def)

subsection \<open>The printed digits are the decimal numeral\<close>

lemma digit_value_digit_char: "d < 10 \<Longrightarrow> digit_value (digit_char d) = d"
proof -
  assume "d < 10"
  then have "d = 0 \<or> d = 1 \<or> d = 2 \<or> d = 3 \<or> d = 4 \<or> d = 5 \<or> d = 6 \<or> d = 7 \<or> d = 8 \<or> d = 9"
    by arith
  then show ?thesis
    by (elim disjE) (simp_all add: digit_value_def digit_char_def)
qed

lemma decimal_value_snoc:
  "decimal_value (digits @ [c]) = 10 * decimal_value digits + digit_value c"
  by (simp add: decimal_value_def)

lemma decimal_value_string_of_nat: "decimal_value (string_of_nat n) = n"
proof (induction n rule: string_of_nat.induct)
  case (1 n)
  show ?case
  proof (cases "n < 10")
    case True
    then show ?thesis
      by (simp add: string_of_nat.simps [of n] decimal_value_def digit_value_digit_char)
  next
    case False
    with 1 have "decimal_value (string_of_nat (n div 10)) = n div 10" by simp
    with False show ?thesis
      by (simp add: string_of_nat.simps [of n] decimal_value_snoc digit_value_digit_char)
  qed
qed

lemma digit_char_mem: "d < 10 \<Longrightarrow> digit_char d \<in> set ''0123456789''"
  unfolding digit_char_def by (rule nth_mem) simp

lemma string_of_nat_digits: "set (string_of_nat n) \<subseteq> set ''0123456789''"
proof (induction n rule: string_of_nat.induct)
  case (1 n)
  show ?case
  proof (cases "n < 10")
    case True
    then show ?thesis
      using digit_char_mem [of n] by (simp add: string_of_nat.simps [of n])
  next
    case False
    with 1 have "set (string_of_nat (n div 10)) \<subseteq> set ''0123456789''" by simp
    with False show ?thesis
      using digit_char_mem [of "n mod 10"] by (simp add: string_of_nat.simps [of n])
  qed
qed

lemma string_of_nat_no_leading_zero: "1 \<le> n \<Longrightarrow> hd (string_of_nat n) \<noteq> CHR ''0''"
proof (induction n rule: string_of_nat.induct)
  case (1 n)
  have z: "digit_char 0 = CHR ''0''" by (simp add: digit_char_def)
  show ?case
  proof (cases "n < 10")
    case True
    with "1.prems" have "digit_char n \<noteq> digit_char 0"
      using digit_char_inj [of n 0] by auto
    with True show ?thesis by (simp add: string_of_nat.simps [of n] z)
  next
    case False
    then have "1 \<le> n div 10" by simp
    with 1 False have "hd (string_of_nat (n div 10)) \<noteq> CHR ''0''" by simp
    with False show ?thesis
      by (simp add: string_of_nat.simps [of n] string_of_nat_nonempty)
  qed
qed

subsection \<open>The handlers keep the invariant\<close>

lemma pushUndo_fields [simp]:
  "lines (pushUndo act s) = lines s" "lineCounter (pushUndo act s) = lineCounter s"
  by (simp_all add: pushUndo_def Let_def)

lemma pushUndo_stack:
  "undoStack (pushUndo act s) =
     (if length (undoStack s) \<ge> MAX_UNDO then tl (undoStack s) @ [act] else undoStack s @ [act])"
  by (cases "undoStack s") (auto simp: pushUndo_def Let_def MAX_UNDO_def)

lemma pushUndo_set: "set (undoStack (pushUndo act s)) \<subseteq> insert act (set (undoStack s))"
  by (cases "undoStack s") (auto simp: pushUndo_stack)

lemma pushUndo_length:
  "length (undoStack s) \<le> MAX_UNDO \<Longrightarrow> length (undoStack (pushUndo act s)) \<le> MAX_UNDO"
  by (auto simp: pushUndo_stack MAX_UNDO_def)

lemma updateLineLabel_fields [simp]:
  "undoStack (updateLineLabel d lineId s) = undoStack s"
  "lineCounter (updateLineLabel d lineId s) = lineCounter s"
  by (simp_all add: updateLineLabel_def split: option.splits)

lemma updateLineLabel_lookup:
  "map_of (lines (updateLineLabel d lineId s)) k =
     (if k = lineId
      then map_option (\<lambda>l. l\<lparr>labels := line_labels d (polyline l) (color l)\<rparr>) (map_of (lines s) k)
      else map_of (lines s) k)"
  by (simp add: updateLineLabel_def update_conv' split: option.splits)

lemma updateLineLabel_keys [simp]:
  "map fst (lines (updateLineLabel d lineId s)) = map fst (lines s)"
  by (auto simp: updateLineLabel_def update_keys map_of_eq_None_iff split: option.splits
           intro!: map_idI)

lemma removeLineFromMap_fields [simp]:
  "undoStack (removeLineFromMap lineId s) = undoStack s"
  "lineCounter (removeLineFromMap lineId s) = lineCounter s"
  by (simp_all add: removeLineFromMap_def split: option.splits)

lemma removeLineFromMap_lines:
  "lines (removeLineFromMap lineId s) = AList.delete lineId (lines s)"
  by (auto simp: removeLineFromMap_def delete_id map_of_eq_None_iff split: option.splits)

lemma invariant_pushUndo:
  "invariant d s \<Longrightarrow> action_ok (lineCounter s) act \<Longrightarrow> invariant d (pushUndo act s)"
  unfolding invariant_def using pushUndo_set [of act s] pushUndo_length [of s act]
  by auto

lemma invariant_updateLineLabel:
  "invariant d s \<Longrightarrow> invariant d (updateLineLabel d lineId s)"
  unfolding invariant_def
  by (auto simp: updateLineLabel_lookup line_ok_def split: if_splits)

lemma invariant_removeLineFromMap:
  "invariant d s \<Longrightarrow> invariant d (removeLineFromMap lineId s)"
  unfolding invariant_def
  by (auto simp: removeLineFromMap_lines delete_conv' split: if_splits)

lemma invariant_deleteLine: "invariant d s \<Longrightarrow> invariant d (deleteLine lineId s)"
proof (cases "map_of (lines s) lineId")
  case None
  assume "invariant d s"
  with None show ?thesis by (simp add: deleteLine_def)
next
  case (Some l)
  assume i: "invariant d s"
  with Some have "line_ok d (lineCounter s) lineId l" by (simp add: invariant_def)
  then have "action_ok (lineCounter s) (Delete lineId (polyline l) (color l) (number l))"
    by (simp add: line_ok_def)
  with i Some show ?thesis
    by (simp add: deleteLine_def invariant_pushUndo invariant_removeLineFromMap)
qed

lemma action_ok_mono: "action_ok n act \<Longrightarrow> n \<le> m \<Longrightarrow> action_ok m act"
  by (cases act) auto

lemma line_ok_mono: "line_ok d n k l \<Longrightarrow> n \<le> m \<Longrightarrow> line_ok d m k l"
  by (auto simp: line_ok_def)

text \<open>Storing a line whose fields other than the labels are right, then labelling it.\<close>

lemma invariant_store:
  assumes "invariant d s"
    and "1 \<le> num" and "num \<le> lineCounter s"
    and "col = LINE_COLORS ! ((num - 1) mod length LINE_COLORS)"
  shows "invariant d (updateLineLabel d (lineId_of num)
           (s\<lparr>lines := AList.update (lineId_of num)
                \<lparr>polyline = latlngs, labels = ls, color = col, number = num\<rparr> (lines s)\<rparr>))"
  using assms unfolding invariant_def
  by (auto simp: updateLineLabel_lookup update_conv' line_ok_def split: if_splits)

lemma invariant_restoreLine:
  "invariant d s \<Longrightarrow> action_ok (lineCounter s) (Delete lineId latlngs col num) \<Longrightarrow>
   invariant d (restoreLine d latlngs col num s)"
  by (simp add: restoreLine_def Let_def invariant_store)

lemma invariant_counter:
  "invariant d s \<Longrightarrow> invariant d (s\<lparr>lineCounter := Suc (lineCounter s)\<rparr>)"
  unfolding invariant_def
  using action_ok_mono [of "lineCounter s" _ "Suc (lineCounter s)"]
    line_ok_mono [of d "lineCounter s" _ _ "Suc (lineCounter s)"]
  by simp

lemma on_created_alt:
  "on_created d latlngs s =
     updateLineLabel d (lineId_of (Suc (lineCounter s)))
       (pushUndo (Create (lineId_of (Suc (lineCounter s))))
         (s\<lparr>lineCounter := Suc (lineCounter s),
            lines := AList.update (lineId_of (Suc (lineCounter s)))
              \<lparr>polyline = latlngs, labels = [],
               color = LINE_COLORS ! (lineCounter s mod length LINE_COLORS),
               number = Suc (lineCounter s)\<rparr> (lines s)\<rparr>))"
  by (simp add: on_created_def Let_def)

lemma invariant_on_created: "invariant d s \<Longrightarrow> invariant d (on_created d latlngs s)"
proof -
  assume i: "invariant d s"
  let ?n = "Suc (lineCounter s)"
  let ?s0 = "s\<lparr>lineCounter := ?n\<rparr>"
  let ?l = "\<lparr>polyline = latlngs, labels = [],
      color = LINE_COLORS ! (lineCounter s mod length LINE_COLORS), number = ?n\<rparr>"
  have i0: "invariant d (pushUndo (Create (lineId_of ?n)) ?s0)"
    using i by (simp add: invariant_counter invariant_pushUndo)
  have "invariant d (updateLineLabel d (lineId_of ?n)
     ((pushUndo (Create (lineId_of ?n)) ?s0)\<lparr>lines := AList.update (lineId_of ?n) ?l
        (lines (pushUndo (Create (lineId_of ?n)) ?s0))\<rparr>))"
    by (rule invariant_store [OF i0]) simp_all
  moreover have "(pushUndo (Create (lineId_of ?n)) ?s0)\<lparr>lines := AList.update (lineId_of ?n) ?l
        (lines (pushUndo (Create (lineId_of ?n)) ?s0))\<rparr>
     = pushUndo (Create (lineId_of ?n)) (s\<lparr>lineCounter := ?n, lines := AList.update (lineId_of ?n) ?l (lines s)\<rparr>)"
    by (simp add: pushUndo_def Let_def)
  ultimately show ?thesis by (simp add: on_created_alt)
qed

lemma invariant_setLatLngs_update:
  "invariant d s \<Longrightarrow> invariant d (updateLineLabel d lineId (setLatLngs lineId latlngs s))"
  unfolding invariant_def
  by (auto simp: updateLineLabel_lookup setLatLngs_def update_conv' line_ok_def
           split: if_splits option.splits)

lemma invariant_on_edited: "invariant d s \<Longrightarrow> invariant d (on_edited d layers s)"
  unfolding on_edited_def
  by (induction layers arbitrary: s) (auto simp: invariant_setLatLngs_update)

lemma invariant_delete_key:
  "invariant d s \<Longrightarrow> invariant d (s\<lparr>lines := AList.delete lineId (lines s)\<rparr>)"
  unfolding invariant_def
  by (auto simp: delete_conv' split: if_splits)

lemma invariant_on_deleted: "invariant d s \<Longrightarrow> invariant d (on_deleted lineIds s)"
  unfolding on_deleted_def
  by (induction lineIds arbitrary: s) (auto simp: invariant_delete_key)

lemma invariant_on_clear: "invariant d s \<Longrightarrow> invariant d (on_clear s)"
  by (simp add: invariant_def on_clear_def)

lemma invariant_pop:
  "invariant d s \<Longrightarrow> invariant d (s\<lparr>undoStack := butlast (undoStack s)\<rparr>)"
  unfolding invariant_def
  by (auto dest: in_set_butlastD)

lemma invariant_on_undo: "invariant d s \<Longrightarrow> invariant d (on_undo d s)"
proof (cases "undoStack s = []")
  case True
  assume "invariant d s"
  with True show ?thesis by (simp add: on_undo_def)
next
  case False
  assume i: "invariant d s"
  let ?s1 = "s\<lparr>undoStack := butlast (undoStack s)\<rparr>"
  from i have i1: "invariant d ?s1" by (rule invariant_pop)
  from False have "last (undoStack s) \<in> set (undoStack s)" by simp
  with i have ok: "action_ok (lineCounter ?s1) (last (undoStack s))"
    by (simp add: invariant_def)
  show ?thesis
  proof (cases "last (undoStack s)")
    case (Create lineId)
    with False i1 show ?thesis
      by (simp add: on_undo_def Let_def invariant_removeLineFromMap)
  next
    case (Delete lineId latlngs col num)
    with ok have "action_ok (lineCounter ?s1) (Delete lineId latlngs col num)" by simp
    from invariant_restoreLine [OF i1 this] Delete False show ?thesis
      by (simp add: on_undo_def Let_def)
  qed
qed

lemma invariant_handle: "invariant d s \<Longrightarrow> invariant d (handle d ev s)"
  by (cases ev)
     (simp_all add: invariant_on_created invariant_on_edited invariant_on_deleted
        invariant_deleteLine invariant_on_clear invariant_on_undo)

lemma invariant_fold: "invariant d s \<Longrightarrow> invariant d (fold (handle d) events s)"
  by (induction events arbitrary: s) (simp_all add: invariant_handle)

lemma invariant_run: "invariant d (run d events)"
  unfolding run_def
  by (rule invariant_fold) (simp add: invariant_def initial_state_def)

lemma fold_pushUndo_lines [simp]: "lines (fold pushUndo acts s) = lines s"
  by (induction acts arbitrary: s) simp_all

lemma fold_pushUndo_stack:
  "length (undoStack s) \<le> MAX_UNDO \<Longrightarrow>
   undoStack (fold pushUndo acts s) =
     drop (length (undoStack s @ acts) - MAX_UNDO) (undoStack s @ acts)"
proof (induction acts arbitrary: s)
  case Nil
  then show ?case by simp
next
  case (Cons a acts)
  have l: "length (undoStack (pushUndo a s)) \<le> MAX_UNDO"
    using Cons.prems by (rule pushUndo_length)
  show ?case
  proof (cases "length (undoStack s) \<ge> MAX_UNDO")
    case True
    with Cons.prems have e: "length (undoStack s) = MAX_UNDO" by simp
    then obtain x xs where xs: "undoStack s = x # xs" 
      by (cases "undoStack s") (auto simp: MAX_UNDO_def)
    with e True show ?thesis
      using Cons.IH [OF l] by (simp add: pushUndo_stack Suc_diff_le)
  next
    case False
    then show ?thesis
      using Cons.IH [OF l] by (simp add: pushUndo_stack)
  qed
qed

subsection \<open>Runs, fresh identifiers and evaluation\<close>

lemma run_snoc: "run d (events @ [ev]) = handle d ev (run d events)"
  by (simp add: run_def)

lemma run_snoc2: "run d (events @ [e1, e2]) = handle d e2 (handle d e1 (run d events))"
  by (simp add: run_def)

lemma updateLineLabel_lines_length [simp]:
  "length (lines (updateLineLabel d lineId s)) = length (lines s)"
  by (metis updateLineLabel_keys length_map)

lemma fresh_lineId:
  assumes "invariant d s"
  shows "map_of (lines s) (lineId_of (Suc (lineCounter s))) = None"
proof (cases "map_of (lines s) (lineId_of (Suc (lineCounter s)))")
  case None
  then show ?thesis .
next
  case (Some l)
  with assms have "line_ok d (lineCounter s) (lineId_of (Suc (lineCounter s))) l"
    by (simp add: invariant_def)
  then have "Suc (lineCounter s) = number l" and "number l \<le> lineCounter s"
    by (simp_all add: line_ok_def lineId_of_inj)
  then show ?thesis by simp
qed

lemma on_created_undoStack:
  "undoStack (on_created d latlngs s) \<noteq> [] \<and>
   last (undoStack (on_created d latlngs s)) = Create (lineId_of (Suc (lineCounter s))) \<and>
   butlast (undoStack (on_created d latlngs s)) =
     (if length (undoStack s) \<ge> MAX_UNDO then tl (undoStack s) else undoStack s)"
  by (simp add: on_created_alt pushUndo_stack)

lemma on_created_lines:
  "lines (on_created d latlngs s) =
     lines (updateLineLabel d (lineId_of (Suc (lineCounter s)))
       (s\<lparr>lines := AList.update (lineId_of (Suc (lineCounter s)))
              \<lparr>polyline = latlngs, labels = [],
               color = LINE_COLORS ! (lineCounter s mod length LINE_COLORS),
               number = Suc (lineCounter s)\<rparr> (lines s)\<rparr>))"
  by (simp add: on_created_alt updateLineLabel_def pushUndo_def Let_def split: option.splits)

lemma update_update_same: "AList.update k v (AList.update k w al) = AList.update k v al"
  by (induction al) auto

lemma on_created_lines_explicit:
  "lines (on_created d latlngs s) =
     AList.update (lineId_of (Suc (lineCounter s)))
       \<lparr>polyline = latlngs,
        labels = line_labels d latlngs (LINE_COLORS ! (lineCounter s mod length LINE_COLORS)),
        color = LINE_COLORS ! (lineCounter s mod length LINE_COLORS),
        number = Suc (lineCounter s)\<rparr> (lines s)"
  by (simp add: on_created_lines updateLineLabel_def update_conv' update_update_same)

lemma on_created_counter [simp]: "lineCounter (on_created d latlngs s) = Suc (lineCounter s)"
  by (simp add: on_created_alt)

lemma delete_absent: "map_of al k = None \<Longrightarrow> AList.delete k al = al"
  by (simp add: map_of_eq_None_iff)

lemmas eval_defs = run_def initial_state_def on_created_def Let_def pushUndo_def updateLineLabel_def
  lineId_of_def string_of_nat.simps digit_char_def LINE_COLORS_def MAX_UNDO_def line_labels_def
  formatTime_def Math_round_def string_of_int_def createSegmentLabel_def createTotalLabel_def
  getSegmentMidpoint_def planar_def METERS_TO_FEET_def WALKING_SPEED_FT_PER_SEC_def
  deleteLine_def removeLineFromMap_def on_undo_def restoreLine_def on_clear_def

subsection \<open>The line counter\<close>

lemma on_edited_counter [simp]: "lineCounter (on_edited d layers s) = lineCounter s"
  unfolding on_edited_def
  by (induction layers arbitrary: s) (auto simp: setLatLngs_def split: option.splits)

lemma on_deleted_counter [simp]: "lineCounter (on_deleted lineIds s) = lineCounter s"
  unfolding on_deleted_def
  by (induction lineIds arbitrary: s) auto

lemma deleteLine_counter [simp]: "lineCounter (deleteLine lineId s) = lineCounter s"
  by (simp add: deleteLine_def split: option.splits)

lemma on_undo_counter [simp]: "lineCounter (on_undo d s) = lineCounter s"
  by (simp add: on_undo_def Let_def restoreLine_def split: action.splits)

lemma lineCounter_fold:
  "lineCounter (fold (handle d) events s) = lineCounter s + creations events"
proof (induction events arbitrary: s)
  case Nil
  then show ?case by simp
next
  case (Cons ev events)
  then show ?case by (cases ev) (simp_all add: on_clear_def)
qed

lemma lineCounter_run: "lineCounter (run d events) = creations events"
  by (simp add: run_def lineCounter_fold initial_state_def)

subsection \<open>Lengths and labels\<close>

lemma totalMeters_loop_acc:
  "totalMeters_loop d latlngs (m + k) = m + totalMeters_loop d latlngs k"
  by (induction d latlngs k rule: totalMeters_loop.induct) (simp_all add: add.assoc)

lemma segment_loop_fst:
  "fst (segment_loop d col latlngs totalFeet ls) =
     totalFeet + totalMeters_loop d latlngs 0 * METERS_TO_FEET"
proof (induction d col latlngs totalFeet ls rule: segment_loop.induct)
  case (1 d col a b rest totalFeet ls)
  have "totalMeters_loop d (b # rest) (d a b) = d a b + totalMeters_loop d (b # rest) 0"
    using totalMeters_loop_acc [of d "b # rest" "d a b" 0] by simp
  with 1 show ?case by (simp add: Let_def algebra_simps)
qed simp_all

lemma segment_loop_length:
  "length (snd (segment_loop d col latlngs totalFeet ls)) = length ls + (length latlngs - 1)"
  by (induction d col latlngs totalFeet ls rule: segment_loop.induct) (simp_all add: Let_def)

lemma line_labels_total:
  assumes "2 \<le> length latlngs"
  shows "line_labels d latlngs col =
     snd (segment_loop d col latlngs 0 []) @
     [createTotalLabel (last latlngs)
        (formatTime (calculateDistance d latlngs / WALKING_SPEED_FT_PER_SEC)) col]"
proof -
  from assms have ne: "latlngs \<noteq> []" by auto
  from assms show ?thesis
    using segment_loop_fst [of d col latlngs 0 "[]"]
    by (simp add: line_labels_def case_prod_beta Let_def calculateDistance_def last_conv_nth [OF ne])
qed

subsection \<open>The loops of getMidpoint\<close>

lemma totalLength_loop_segments:
  "totalLength_loop (segments_of d latlngs) t = totalMeters_loop d latlngs t"
  by (induction d latlngs arbitrary: t rule: segments_of.induct) simp_all

lemma totalMeters_loop_nonneg:
  "(\<And>a b. 0 \<le> d a b) \<Longrightarrow> 0 \<le> m \<Longrightarrow> 0 \<le> totalMeters_loop d latlngs m"
  by (induction d latlngs m rule: totalMeters_loop.induct) simp_all

lemma totalMeters_loop_step:
  "totalMeters_loop d (a # b # rest) 0 = d a b + totalMeters_loop d (b # rest) 0"
  using totalMeters_loop_acc [of d "b # rest" "d a b" 0] by simp

text \<open>
  The second loop of \<open>getMidpoint\<close> stops at some segment \<open>i\<close>: the length accumulated
  before it is below the middle distance and the length up to its end reaches it.
\<close>

lemma mid_segment_index:
  assumes "accumulated < midDistance"
    and "midDistance \<le> accumulated + totalMeters_loop d latlngs 0"
  shows "\<exists>i. Suc i < length latlngs \<and>
     mid_segment midDistance accumulated (segments_of d latlngs) =
       Some (\<lparr>seg_start = latlngs ! i, seg_end = latlngs ! Suc i,
              seg_length = d (latlngs ! i) (latlngs ! Suc i)\<rparr>,
             accumulated + totalMeters_loop d (take (Suc i) latlngs) 0) \<and>
     accumulated + totalMeters_loop d (take (Suc i) latlngs) 0 < midDistance \<and>
     midDistance \<le> accumulated + totalMeters_loop d (take (Suc i) latlngs) 0
        + d (latlngs ! i) (latlngs ! Suc i)"
  using assms
proof (induction d latlngs arbitrary: accumulated rule: segments_of.induct)
  case (1 d a b rest)
  show ?case
  proof (cases "accumulated + d a b \<ge> midDistance")
    case True
    with "1.prems" show ?thesis
      by (intro exI [of _ 0]) simp
  next
    case False
    then have lt: "accumulated + d a b < midDistance" by simp
    from "1.prems"(2) have le: "midDistance \<le> (accumulated + d a b) + totalMeters_loop d (b # rest) 0"
      unfolding totalMeters_loop_step by (simp only: add.assoc)
    from "1.IH" [OF lt le] obtain i where i: "Suc i < length (b # rest)"
      and m: "mid_segment midDistance (accumulated + d a b) (segments_of d (b # rest)) =
        Some (\<lparr>seg_start = (b # rest) ! i, seg_end = (b # rest) ! Suc i,
               seg_length = d ((b # rest) ! i) ((b # rest) ! Suc i)\<rparr>,
              accumulated + d a b + totalMeters_loop d (take (Suc i) (b # rest)) 0)"
      and l: "accumulated + d a b + totalMeters_loop d (take (Suc i) (b # rest)) 0 < midDistance"
      and u: "midDistance \<le> accumulated + d a b + totalMeters_loop d (take (Suc i) (b # rest)) 0
          + d ((b # rest) ! i) ((b # rest) ! Suc i)"
      by blast
    show ?thesis
      using False i m l u
      by (intro exI [of _ "Suc i"])
         (simp add: add.assoc totalMeters_loop_step del: totalMeters_loop.simps)
  qed
qed simp_all

section \<open>The claims\<close>

text \<open>
  C7. For seconds \<open>\<ge> 0\<close>, both formatters round to the nearest minute, a half minute
  going up: the minute count is \<open>m\<close> exactly when \<open>60 m - 30 \<le> seconds < 60 m + 30\<close>.
  Below 30 seconds they give \<open><1m\<close> and \<open><1 min\<close>; from 30 up to (not including) 90
  seconds, so also at exactly 30 seconds, they give \<open>1m\<close> and \<open>1 min\<close>; and for every
  count \<open>n \<ge> 1\<close> they give the decimal numeral of \<open>n\<close> (digits only, no leading zero,
  denoting \<open>n\<close>), followed by the letter \<open>m\<close> in the short format and by a space and
  \<open>min\<close> in the long one.
\<close>

theorem formatters_round_half_up:
  assumes "0 \<le> seconds"
  shows "(seconds < 30 \<longrightarrow> formatTime seconds = ''<1m'' \<and> formatTimeLong seconds = ''<1 min'') \<and>
         (30 \<le> seconds \<and> seconds < 90 \<longrightarrow>
            formatTime seconds = ''1m'' \<and> formatTimeLong seconds = ''1 min'') \<and>
         (\<forall>m. Math_round (seconds / 60) = m \<longleftrightarrow>
            60 * real_of_int m - 30 \<le> seconds \<and> seconds < 60 * real_of_int m + 30) \<and>
         (\<forall>m. 1 \<le> m \<and> 60 * real_of_int m - 30 \<le> seconds \<and> seconds < 60 * real_of_int m + 30 \<longrightarrow>
            formatTime seconds = string_of_nat (nat m) @ ''m'' \<and>
            formatTimeLong seconds = string_of_nat (nat m) @ '' min'' \<and>
            decimal_value (string_of_nat (nat m)) = nat m \<and>
            set (string_of_nat (nat m)) \<subseteq> set ''0123456789'' \<and>
            hd (string_of_nat (nat m)) \<noteq> CHR ''0'')"
proof -
  have lo: "seconds < 30 \<Longrightarrow> Math_round (seconds / 60) = 0"
    using assms unfolding Math_round_def by linarith
  have hi: "30 \<le> seconds \<Longrightarrow> seconds < 90 \<Longrightarrow> Math_round (seconds / 60) = 1"
    unfolding Math_round_def by linarith
  have one: "string_of_nat (Suc 0) = ''1''"
    by (simp add: string_of_nat.simps digit_char_def)
  have near: "Math_round (seconds / 60) = m \<longleftrightarrow>
      60 * real_of_int m - 30 \<le> seconds \<and> seconds < 60 * real_of_int m + 30" for m
    unfolding Math_round_def floor_eq_iff by auto
  have a: "seconds < 30 \<longrightarrow> formatTime seconds = ''<1m'' \<and> formatTimeLong seconds = ''<1 min''"
    using lo by (simp add: formatTime_def formatTimeLong_def)
  have b: "30 \<le> seconds \<and> seconds < 90 \<longrightarrow>
      formatTime seconds = ''1m'' \<and> formatTimeLong seconds = ''1 min''"
    using hi by (simp add: formatTime_def formatTimeLong_def string_of_int_def one)
  have c: "formatTime seconds = string_of_nat (nat m) @ ''m'' \<and>
      formatTimeLong seconds = string_of_nat (nat m) @ '' min'' \<and>
      decimal_value (string_of_nat (nat m)) = nat m \<and>
      set (string_of_nat (nat m)) \<subseteq> set ''0123456789'' \<and>
      hd (string_of_nat (nat m)) \<noteq> CHR ''0''"
    if m: "1 \<le> m" and i: "60 * real_of_int m - 30 \<le> seconds \<and> seconds < 60 * real_of_int m + 30" for m
  proof -
    from i have r: "Math_round (seconds / 60) = m" by (simp only: near)
    have short: "formatTime seconds = string_of_nat (nat m) @ ''m''"
      using m by (simp add: formatTime_def r string_of_int_def)
    have long: "formatTimeLong seconds = string_of_nat (nat m) @ '' min''"
    proof (cases "m = 1")
      case True
      then show ?thesis by (simp add: formatTimeLong_def r one)
    next
      case False
      with m show ?thesis by (simp add: formatTimeLong_def r string_of_int_def)
    qed
    from m have "1 \<le> nat m" by simp
    then have "hd (string_of_nat (nat m)) \<noteq> CHR ''0''" by (rule string_of_nat_no_leading_zero)
    with short long show ?thesis
      using string_of_nat_digits [of "nat m"] by (simp add: decimal_value_string_of_nat)
  qed
  from a b near c show ?thesis by blast
qed

theorem formatters_round_half_up_witness:
  "(0::real) \<le> 30 \<and> formatTime 30 = ''1m'' \<and> formatTimeLong 30 = ''1 min'' \<and>
   formatTime 29 = ''<1m'' \<and> formatTimeLong 29 = ''<1 min'' \<and> Math_round (30 / 60) = 1 \<and>
   formatTime 36000 = ''600m'' \<and> formatTimeLong 36000 = ''600 min'' \<and>
   decimal_value ''600'' = 600 \<and>
   formatTime 149 = ''2m'' \<and> formatTimeLong 150 = ''3 min''"
proof -
  have n: "string_of_nat 600 = ''600''" "string_of_nat 2 = ''2''" "string_of_nat 3 = ''3''"
    by (simp_all add: string_of_nat.simps digit_char_def)
  have p: "(0::real) \<le> 30" "(0::real) \<le> 29" "(0::real) \<le> 36000" "(0::real) \<le> 149"
    "(0::real) \<le> 150"
    by simp_all
  from formatters_round_half_up [OF p(1)] formatters_round_half_up [OF p(2)]
  have small: "formatTime 30 = ''1m'' \<and> formatTimeLong 30 = ''1 min'' \<and>
      formatTime 29 = ''<1m'' \<and> formatTimeLong 29 = ''<1 min'' \<and> Math_round (30 / 60) = 1"
    by simp
  from formatters_round_half_up [OF p(3), THEN conjunct2, THEN conjunct2, THEN conjunct2,
      rule_format, of 600]
  have big: "formatTime 36000 = ''600m'' \<and> formatTimeLong 36000 = ''600 min'' \<and>
      decimal_value ''600'' = 600"
    by (simp add: n)
  from formatters_round_half_up [OF p(4), THEN conjunct2, THEN conjunct2, THEN conjunct2,
      rule_format, of 2]
  have two: "formatTime 149 = ''2m''" by (simp add: n)
  from formatters_round_half_up [OF p(5), THEN conjunct2, THEN conjunct2, THEN conjunct2,
      rule_format, of 3]
  have three: "formatTimeLong 150 = ''3 min''" by (simp add: n)
  from small big two three show ?thesis by simp
qed

text \<open>
  C4. The undo stack never holds more than 10 entries in a reachable state. \<open>pushUndo\<close>
  appends at the back and drops the front entry once the length exceeds 10; the undo handler
  takes the last entry off and acts on it; pushing 11 entries leaves the last 10 of them.
\<close>

theorem undo_log_bounded:
  "length (undoStack (run d events)) \<le> 10 \<and>
   undoStack (pushUndo act s) =
     (if length (undoStack s @ [act]) > 10 then tl (undoStack s @ [act]) else undoStack s @ [act]) \<and>
   (undoStack s = st @ [act] \<longrightarrow>
      undoStack (on_undo d s) = st \<and>
      on_undo d s =
        (case act of
           Create lineId \<Rightarrow> removeLineFromMap lineId (s\<lparr>undoStack := st\<rparr>)
         | Delete lineId latlngs col num \<Rightarrow> restoreLine d latlngs col num (s\<lparr>undoStack := st\<rparr>))) \<and>
   (length (undoStack s) \<le> 10 \<and> length acts = 11 \<longrightarrow>
      undoStack (fold pushUndo acts s) = tl acts)"
proof -
  have a: "length (undoStack (run d events)) \<le> 10"
    using invariant_run [of d events] by (simp add: invariant_def MAX_UNDO_def)
  have b: "undoStack (pushUndo act s) =
     (if length (undoStack s @ [act]) > 10 then tl (undoStack s @ [act]) else undoStack s @ [act])"
    by (simp add: pushUndo_def Let_def MAX_UNDO_def)
  have c: "undoStack (on_undo d s) = st \<and>
      on_undo d s =
        (case act of
           Create lineId \<Rightarrow> removeLineFromMap lineId (s\<lparr>undoStack := st\<rparr>)
         | Delete lineId latlngs col num \<Rightarrow> restoreLine d latlngs col num (s\<lparr>undoStack := st\<rparr>))"
    if "undoStack s = st @ [act]"
    using that
    by (cases act) (simp_all add: on_undo_def Let_def restoreLine_def)
  have e: "undoStack (fold pushUndo acts s) = tl acts"
    if "length (undoStack s) \<le> 10" and "length acts = 11"
  proof -
    from that have "undoStack (fold pushUndo acts s) = drop (Suc (length (undoStack s))) (undoStack s @ acts)"
      by (simp add: fold_pushUndo_stack MAX_UNDO_def)
    then show ?thesis by (simp add: drop_Suc)
  qed
  from a b c e show ?thesis by blast
qed

theorem undo_log_bounded_witness:
  "undoStack (fold pushUndo
     [Create ''line-1'', Create ''line-2'', Create ''line-3'', Create ''line-4'', Create ''line-5'',
      Create ''line-6'', Create ''line-7'', Create ''line-8'', Create ''line-9'', Create ''line-10'',
      Create ''line-11''] initial_state) =
     [Create ''line-2'', Create ''line-3'', Create ''line-4'', Create ''line-5'',
      Create ''line-6'', Create ''line-7'', Create ''line-8'', Create ''line-9'', Create ''line-10'',
      Create ''line-11''] \<and>
   undoStack (on_undo planar \<lparr>lines = [], undoStack = [Create ''line-1'', Create ''line-2''],
       lineCounter = 2\<rparr>) = [Create ''line-1'']"
  using undo_log_bounded [where s = initial_state and act = "Create ''line-1''" and st = "[]"
      and acts = "[Create ''line-1'', Create ''line-2'', Create ''line-3'', Create ''line-4'',
        Create ''line-5'', Create ''line-6'', Create ''line-7'', Create ''line-8'', Create ''line-9'',
        Create ''line-10'', Create ''line-11'']"]
    undo_log_bounded [where s = "\<lparr>lines = [], undoStack = [Create ''line-1'', Create ''line-2''],
       lineCounter = 2\<rparr>" and act = "Create ''line-2''" and st = "[Create ''line-1'']"
      and acts = "[]" and d = planar]
  by (simp add: initial_state_def)

text \<open>
  C5. In every reachable state, finishing a line registers it under the identifier of the
  next number, and the undo that follows removes it again: the registry is the one from
  before the creation (so the number of lines is the same), and the undo only takes the
  \<open>create\<close> entry off the undo stack, pushing nothing.
\<close>

theorem create_then_undo:
  "map_of (lines (run d (events @ [Created latlngs])))
      (lineId_of (Suc (lineCounter (run d events)))) \<noteq> None \<and>
   length (lines (run d (events @ [Created latlngs]))) = Suc (length (lines (run d events))) \<and>
   lines (run d (events @ [Created latlngs, UndoKey])) = lines (run d events) \<and>
   length (lines (run d (events @ [Created latlngs, UndoKey]))) = length (lines (run d events)) \<and>
   undoStack (run d (events @ [Created latlngs, UndoKey])) =
     butlast (undoStack (run d (events @ [Created latlngs]))) \<and>
   undoStack (run d (events @ [Created latlngs, UndoKey])) =
     (if length (undoStack (run d events)) = MAX_UNDO
      then tl (undoStack (run d events)) else undoStack (run d events))"
proof -
  let ?s = "run d events"
  let ?k = "lineId_of (Suc (lineCounter ?s))"
  let ?c = "on_created d latlngs ?s"
  have inv: "invariant d ?s" by (rule invariant_run)
  have fresh: "map_of (lines ?s) ?k = None" using inv by (rule fresh_lineId)
  then have notin: "?k \<notin> set (map fst (lines ?s))" by (simp add: map_of_eq_None_iff)
  have len: "length (undoStack ?s) \<le> MAX_UNDO" using inv by (simp add: invariant_def)
  have present: "map_of (lines ?c) ?k \<noteq> None"
    by (simp add: on_created_lines_explicit update_conv')
  have count: "length (lines ?c) = Suc (length (lines ?s))"
    using notin arg_cong [OF update_keys [of ?k _ "lines ?s"], of length]
    by (simp add: on_created_lines_explicit)
  have u: "on_undo d ?c = removeLineFromMap ?k (?c\<lparr>undoStack := butlast (undoStack ?c)\<rparr>)"
    using on_created_undoStack [of d latlngs ?s] by (simp add: on_undo_def Let_def)
  have undone: "lines (on_undo d ?c) = lines ?s"
    using fresh by (simp add: u removeLineFromMap_lines on_created_lines_explicit delete_update_fresh)
  have st: "undoStack (on_undo d ?c) = butlast (undoStack ?c)"
    by (simp add: u)
  have st2: "butlast (undoStack ?c) =
      (if length (undoStack ?s) = MAX_UNDO then tl (undoStack ?s) else undoStack ?s)"
    using on_created_undoStack [of d latlngs ?s] len by auto
  show ?thesis
    using present count undone st st2 by (simp add: run_snoc run_snoc2)
qed

text \<open>
  C3. In every reachable state, deleting a registered line with the sidebar button and then
  undoing puts the line back under the same identifier (\<open>line-\<close> followed by its number)
  with the same coordinates, colour, number and labels; every other line is untouched.
\<close>

theorem delete_then_undo_restores:
  assumes "map_of (lines (run d events)) lineId = Some l"
  shows "lineId = lineId_of (number l) \<and>
         map_of (lines (run d (events @ [DeleteClick lineId]))) lineId = None \<and>
         map_of (lines (run d (events @ [DeleteClick lineId, UndoKey]))) lineId = Some l \<and>
         map_of (lines (run d (events @ [DeleteClick lineId, UndoKey]))) =
           map_of (lines (run d events))"
proof -
  let ?s = "run d events"
  let ?a = "Delete lineId (polyline l) (color l) (number l)"
  let ?p = "pushUndo ?a ?s"
  let ?del = "deleteLine lineId ?s"
  have inv: "invariant d ?s" by (rule invariant_run)
  with assms have ok: "line_ok d (lineCounter ?s) lineId l" by (simp add: invariant_def)
  then have id: "lineId = lineId_of (number l)" by (simp add: line_ok_def)
  from ok have lab: "labels l = line_labels d (polyline l) (color l)" by (simp add: line_ok_def)
  have del: "?del = removeLineFromMap lineId ?p"
    using assms by (simp add: deleteLine_def)
  have del_lines: "lines ?del = AList.delete lineId (lines ?s)"
    by (simp add: del removeLineFromMap_lines)
  have gone: "map_of (lines ?del) lineId = None"
    by (simp add: del_lines delete_conv')
  have stack: "undoStack ?del \<noteq> [] \<and> last (undoStack ?del) = ?a"
    by (simp add: del pushUndo_stack)
  have u: "on_undo d ?del =
      restoreLine d (polyline l) (color l) (number l) (?del\<lparr>undoStack := butlast (undoStack ?del)\<rparr>)"
    using stack by (simp add: on_undo_def Let_def)
  have l_eq: "\<lparr>polyline = polyline l, labels = line_labels d (polyline l) (color l),
               color = color l, number = number l\<rparr> = l"
    using lab by simp
  have id': "lineId_of (number l) = lineId" using id by simp
  have look: "map_of (lines (on_undo d ?del)) k = (if k = lineId then Some l else map_of (lines ?s) k)" for k
    unfolding u restoreLine_def Let_def id'
    by (simp add: updateLineLabel_lookup update_conv' del_lines delete_conv' l_eq)
  have same: "map_of (lines (on_undo d ?del)) = map_of (lines ?s)"
    using look assms by (auto simp: fun_eq_iff)
  show ?thesis
    using id gone look [of lineId] same by (simp add: run_snoc run_snoc2)
qed

theorem delete_then_undo_restores_witness:
  "map_of (lines (run planar [Created [\<lparr>lat = 0, lng = 0\<rparr>, \<lparr>lat = 0, lng = 100\<rparr>]])) ''line-1'' =
     Some \<lparr>polyline = [\<lparr>lat = 0, lng = 0\<rparr>, \<lparr>lat = 0, lng = 100\<rparr>],
           labels = [\<lparr>label_pos = \<lparr>lat = 0, lng = 50\<rparr>, label_class = ''line-label'',
                      label_text = ''2m'', label_color = ''#3388ff''\<rparr>,
                     \<lparr>label_pos = \<lparr>lat = 0, lng = 100\<rparr>, label_class = ''line-label total-label'',
                      label_text = ''Total: 2m'', label_color = ''#3388ff''\<rparr>],
           color = ''#3388ff'', number = 1\<rparr> \<and>
   map_of (lines (run planar [Created [\<lparr>lat = 0, lng = 0\<rparr>, \<lparr>lat = 0, lng = 100\<rparr>],
       DeleteClick ''line-1''])) ''line-1'' = None \<and>
   map_of (lines (run planar [Created [\<lparr>lat = 0, lng = 0\<rparr>, \<lparr>lat = 0, lng = 100\<rparr>],
       DeleteClick ''line-1'', UndoKey])) ''line-1'' =
     Some \<lparr>polyline = [\<lparr>lat = 0, lng = 0\<rparr>, \<lparr>lat = 0, lng = 100\<rparr>],
           labels = [\<lparr>label_pos = \<lparr>lat = 0, lng = 50\<rparr>, label_class = ''line-label'',
                      label_text = ''2m'', label_color = ''#3388ff''\<rparr>,
                     \<lparr>label_pos = \<lparr>lat = 0, lng = 100\<rparr>, label_class = ''line-label total-label'',
                      label_text = ''Total: 2m'', label_color = ''#3388ff''\<rparr>],
           color = ''#3388ff'', number = 1\<rparr>"
proof -
  let ?p = "[\<lparr>lat = 0, lng = 0\<rparr>, \<lparr>lat = 0, lng = 100\<rparr>]"
  have h: "map_of (lines (run planar [Created ?p])) ''line-1'' =
     Some \<lparr>polyline = ?p,
           labels = [\<lparr>label_pos = \<lparr>lat = 0, lng = 50\<rparr>, label_class = ''line-label'',
                      label_text = ''2m'', label_color = ''#3388ff''\<rparr>,
                     \<lparr>label_pos = \<lparr>lat = 0, lng = 100\<rparr>, label_class = ''line-label total-label'',
                      label_text = ''Total: 2m'', label_color = ''#3388ff''\<rparr>],
           color = ''#3388ff'', number = 1\<rparr>"
    by (simp add: eval_defs)
  from delete_then_undo_restores [OF h, THEN conjunct2] h show ?thesis by simp
qed

text \<open>
  C2, counterexample. Create a line, delete it with the sidebar button, clear, undo: the
  undo restores the deleted line, so the registry is not empty after clear and undo.
\<close>

theorem clear_then_undo_counterexample:
  "map fst (lines (run planar [Created [\<lparr>lat = 0, lng = 0\<rparr>, \<lparr>lat = 0, lng = 100\<rparr>],
      DeleteClick ''line-1'', ClearClick, UndoKey])) = [''line-1'']"
  by (simp add: eval_defs)

text \<open>
  C2, as amended. Clearing empties the registry and does not touch the undo stack, so the
  undo after a clear acts on the most recent entry: with an empty stack or a \<open>create\<close>
  entry the registry stays empty, with a \<open>delete\<close> entry the line deleted earlier is
  registered again and is the only line.
\<close>

theorem clear_then_undo:
  "undoStack (on_clear s) = undoStack s \<and>
   lines (on_clear s) = [] \<and>
   lines (on_undo d (on_clear s)) =
     (if undoStack s = [] then []
      else case last (undoStack s) of
             Create lineId \<Rightarrow> []
           | Delete lineId latlngs col num \<Rightarrow>
               [(lineId_of num,
                 \<lparr>polyline = latlngs, labels = line_labels d latlngs col, color = col,
                  number = num\<rparr>)])"
  by (cases "last (undoStack s)")
     (simp_all add: on_clear_def on_undo_def Let_def removeLineFromMap_def restoreLine_def
        updateLineLabel_def)

text \<open>
  C9. With an identifier the registry does not hold, relabelling, an edit, removal (by the
  registry or by the draw tool) and the sidebar delete leave the whole state as it is; so
  does undo on an empty undo stack.
\<close>

theorem unknown_id_and_empty_log_are_noops:
  "(map_of (lines s) lineId = None \<longrightarrow>
      updateLineLabel d lineId s = s \<and>
      on_edited d [(lineId, latlngs)] s = s \<and>
      removeLineFromMap lineId s = s \<and>
      on_deleted [lineId] s = s \<and>
      deleteLine lineId s = s) \<and>
   (undoStack s = [] \<longrightarrow> on_undo d s = s)"
  by (simp add: updateLineLabel_def on_edited_def setLatLngs_def removeLineFromMap_def
        on_deleted_def deleteLine_def on_undo_def delete_absent)

theorem unknown_id_and_empty_log_are_noops_witness:
  "map_of (lines initial_state) ''line-7'' = None \<and> undoStack initial_state = [] \<and>
   on_edited planar [(''line-7'', [\<lparr>lat = 0, lng = 0\<rparr>, \<lparr>lat = 0, lng = 100\<rparr>])] initial_state =
     initial_state \<and>
   removeLineFromMap ''line-7'' initial_state = initial_state \<and>
   deleteLine ''line-7'' initial_state = initial_state \<and>
   on_undo planar initial_state = initial_state"
  using unknown_id_and_empty_log_are_noops [of initial_state "''line-7''" planar
      "[\<lparr>lat = 0, lng = 0\<rparr>, \<lparr>lat = 0, lng = 100\<rparr>]"]
  by (simp add: initial_state_def)

text \<open>
  C8. The palette has 8 entries and the counter is the number of lines finished so far,
  whatever was deleted, cleared, edited or undone in between. The line finished next gets
  number \<open>i\<close> = counter + 1 and the colour \<open>LINE_COLORS ! ((i - 1) mod 8)\<close>, and every line
  registered in a reachable state (created or restored) has the palette colour of its number.
\<close>

theorem color_by_creation_counter:
  "length LINE_COLORS = 8 \<and>
   lineCounter (run d events) = creations events \<and>
   (\<forall>lineId l. map_of (lines (run d events)) lineId = Some l \<longrightarrow>
      1 \<le> number l \<and> number l \<le> creations events \<and>
      color l = LINE_COLORS ! ((number l - 1) mod 8)) \<and>
   map_of (lines (run d (events @ [Created latlngs]))) (lineId_of (creations events + 1)) =
     Some \<lparr>polyline = latlngs,
           labels = line_labels d latlngs (LINE_COLORS ! ((creations events + 1 - 1) mod 8)),
           color = LINE_COLORS ! ((creations events + 1 - 1) mod 8),
           number = creations events + 1\<rparr>"
proof -
  have inv: "invariant d (run d events)" by (rule invariant_run)
  have reg: "1 \<le> number l \<and> number l \<le> creations events \<and>
      color l = LINE_COLORS ! ((number l - 1) mod 8)"
    if "map_of (lines (run d events)) lineId = Some l" for lineId l
  proof -
    from inv that have "line_ok d (lineCounter (run d events)) lineId l"
      by (simp add: invariant_def)
    then show ?thesis by (simp add: line_ok_def lineCounter_run length_LINE_COLORS)
  qed
  have new: "map_of (lines (run d (events @ [Created latlngs]))) (lineId_of (creations events + 1)) =
     Some \<lparr>polyline = latlngs,
           labels = line_labels d latlngs (LINE_COLORS ! ((creations events + 1 - 1) mod 8)),
           color = LINE_COLORS ! ((creations events + 1 - 1) mod 8),
           number = creations events + 1\<rparr>"
    by (simp add: run_snoc on_created_lines_explicit update_conv' lineCounter_run length_LINE_COLORS)
  from reg new show ?thesis by (simp add: length_LINE_COLORS lineCounter_run)
qed

theorem color_by_creation_counter_witness:
  "map_of (lines (run planar [Created [\<lparr>lat = 0, lng = 0\<rparr>, \<lparr>lat = 0, lng = 100\<rparr>],
       DeleteClick ''line-1'', Created []])) ''line-2'' =
     Some \<lparr>polyline = [], labels = [], color = ''#ff6b6b'', number = 2\<rparr> \<and>
   color \<lparr>polyline = [], labels = [], color = ''#ff6b6b'', number = 2\<rparr> = LINE_COLORS ! 1"
proof -
  let ?evs = "[Created [\<lparr>lat = 0, lng = 0\<rparr>, \<lparr>lat = 0, lng = 100\<rparr>], DeleteClick ''line-1'']"
  let ?l = "\<lparr>polyline = [], labels = [], color = ''#ff6b6b'', number = 2\<rparr>"
  have h: "map_of (lines (run planar (?evs @ [Created []]))) ''line-2'' = Some ?l"
    using color_by_creation_counter [of planar ?evs "[]"]
    by (simp add: lineId_of_def string_of_nat.simps digit_char_def LINE_COLORS_def line_labels_def)
  from color_by_creation_counter [of planar "?evs @ [Created []]" "[]"] h
  have "color ?l = LINE_COLORS ! ((number ?l - 1) mod 8)" by blast
  with h show ?thesis by simp
qed

text \<open>
  C1, counterexample. A line of 100 metres takes 109.36 seconds, which rounds to 2 minutes:
  its total label reads \<open>Total: 2m\<close>, while the long format would give \<open>Total: 2 min\<close>.
\<close>

theorem total_label_long_format_counterexample:
  "map_option (map label_text \<circ> labels)
     (map_of (lines (run planar [Created [\<lparr>lat = 0, lng = 0\<rparr>, \<lparr>lat = 0, lng = 100\<rparr>]])) ''line-1'') =
     Some [''2m'', ''Total: 2m''] \<and>
   ''Total: '' @ formatTimeLong
      (calculateDistance planar [\<lparr>lat = 0, lng = 0\<rparr>, \<lparr>lat = 0, lng = 100\<rparr>] / WALKING_SPEED_FT_PER_SEC) =
     ''Total: 2 min''"
  by (simp add: eval_defs formatTimeLong_def calculateDistance_def)

text \<open>
  C1, as amended. In every reachable state a registered line with at least two coordinates
  has one label per segment and the total label last; the total label sits at the last
  coordinate and its text is \<open>Total: \<close> followed by the walking time of the whole line
  (its length in feet divided by 3 feet per second) in the short format of \<open>formatTime\<close>.
\<close>

theorem total_label_short_format:
  assumes "map_of (lines (run d events)) lineId = Some l" and "2 \<le> length (polyline l)"
  shows "length (labels l) = length (polyline l) \<and>
         label_pos (last (labels l)) = last (polyline l) \<and>
         label_text (last (labels l)) =
           ''Total: '' @ formatTime (calculateDistance d (polyline l) / WALKING_SPEED_FT_PER_SEC)"
proof -
  have "invariant d (run d events)" by (rule invariant_run)
  with assms(1) have "line_ok d (lineCounter (run d events)) lineId l"
    by (simp add: invariant_def)
  then have "labels l = line_labels d (polyline l) (color l)" by (simp add: line_ok_def)
  with assms(2) show ?thesis
    by (simp add: line_labels_total segment_loop_length createTotalLabel_def)
qed

theorem total_label_short_format_witness:
  "label_text (last (labels
      \<lparr>polyline = [\<lparr>lat = 0, lng = 0\<rparr>, \<lparr>lat = 0, lng = 100\<rparr>],
       labels = [\<lparr>label_pos = \<lparr>lat = 0, lng = 50\<rparr>, label_class = ''line-label'',
                  label_text = ''2m'', label_color = ''#3388ff''\<rparr>,
                 \<lparr>label_pos = \<lparr>lat = 0, lng = 100\<rparr>, label_class = ''line-label total-label'',
                  label_text = ''Total: 2m'', label_color = ''#3388ff''\<rparr>],
       color = ''#3388ff'', number = 1\<rparr>)) =
   ''Total: '' @ formatTime
      (calculateDistance planar [\<lparr>lat = 0, lng = 0\<rparr>, \<lparr>lat = 0, lng = 100\<rparr>] / WALKING_SPEED_FT_PER_SEC)"
proof -
  let ?p = "[\<lparr>lat = 0, lng = 0\<rparr>, \<lparr>lat = 0, lng = 100\<rparr>]"
  let ?l = "\<lparr>polyline = ?p,
       labels = [\<lparr>label_pos = \<lparr>lat = 0, lng = 50\<rparr>, label_class = ''line-label'',
                  label_text = ''2m'', label_color = ''#3388ff''\<rparr>,
                 \<lparr>label_pos = \<lparr>lat = 0, lng = 100\<rparr>, label_class = ''line-label total-label'',
                  label_text = ''Total: 2m'', label_color = ''#3388ff''\<rparr>],
       color = ''#3388ff'', number = 1\<rparr>"
  have h: "map_of (lines (run planar [Created ?p])) ''line-1'' = Some ?l"
    by (simp add: eval_defs)
  have n: "2 \<le> length (polyline ?l)" by simp
  from total_label_short_format [OF h n] show ?thesis by simp
qed

text \<open>
  C10. For at least two coordinates: when the total length is positive, the second loop of
  \<open>getMidpoint\<close> returns from a segment of positive length (so the ratio is a quotient by
  a positive number and the final fallback is not reached); when distances are not negative
  and the total length is zero, the loop returns at its first segment, whose length, the
  divisor, is zero.
\<close>

theorem getMidpoint_divisor:
  assumes "2 \<le> length latlngs"
  shows "(0 < totalLength_loop (segments_of distanceTo latlngs) 0 \<longrightarrow>
           (\<exists>seg accumulated.
              mid_segment (totalLength_loop (segments_of distanceTo latlngs) 0 / 2) 0
                (segments_of distanceTo latlngs) = Some (seg, accumulated) \<and>
              0 < seg_length seg \<and>
              getMidpoint distanceTo latlngs =
                MidPoint (interpolate seg
                  ((totalLength_loop (segments_of distanceTo latlngs) 0 / 2 - accumulated)
                     / seg_length seg)))) \<and>
         ((\<forall>a b. 0 \<le> distanceTo a b) \<and>
          totalLength_loop (segments_of distanceTo latlngs) 0 = 0 \<longrightarrow>
           (\<exists>seg. mid_segment (totalLength_loop (segments_of distanceTo latlngs) 0 / 2) 0
                (segments_of distanceTo latlngs) = Some (seg, 0) \<and>
              seg_length seg = 0 \<and>
              getMidpoint distanceTo latlngs = MidNotFinite))"
proof -
  let ?total = "totalLength_loop (segments_of distanceTo latlngs) 0"
  have tot: "?total = totalMeters_loop distanceTo latlngs 0"
    by (rule totalLength_loop_segments)
  have big: "latlngs \<noteq> [] \<and> length latlngs \<noteq> 1" using assms by auto
  have pos: "\<exists>seg accumulated.
      mid_segment (?total / 2) 0 (segments_of distanceTo latlngs) = Some (seg, accumulated) \<and>
      0 < seg_length seg \<and>
      getMidpoint distanceTo latlngs =
        MidPoint (interpolate seg ((?total / 2 - accumulated) / seg_length seg))"
    if p: "0 < ?total"
  proof -
    from p have a: "(0::real) < ?total / 2" by simp
    from p have b: "?total / 2 \<le> 0 + totalMeters_loop distanceTo latlngs 0"
      unfolding tot by simp
    from mid_segment_index [OF a b] obtain i where
      m: "mid_segment (?total / 2) 0 (segments_of distanceTo latlngs) =
        Some (\<lparr>seg_start = latlngs ! i, seg_end = latlngs ! Suc i,
               seg_length = distanceTo (latlngs ! i) (latlngs ! Suc i)\<rparr>,
              0 + totalMeters_loop distanceTo (take (Suc i) latlngs) 0)"
      and l: "0 + totalMeters_loop distanceTo (take (Suc i) latlngs) 0 < ?total / 2"
      and u: "?total / 2 \<le> 0 + totalMeters_loop distanceTo (take (Suc i) latlngs) 0
          + distanceTo (latlngs ! i) (latlngs ! Suc i)"
      by blast
    from l u have len: "0 < distanceTo (latlngs ! i) (latlngs ! Suc i)" by linarith
    show ?thesis
      using m len big by (simp add: getMidpoint_def Let_def)
  qed
  have zero: "\<exists>seg. mid_segment (?total / 2) 0 (segments_of distanceTo latlngs) = Some (seg, 0) \<and>
      seg_length seg = 0 \<and> getMidpoint distanceTo latlngs = MidNotFinite"
    if nn: "\<forall>a b. 0 \<le> distanceTo a b" and z: "?total = 0"
  proof -
    from assms obtain a b rest where l: "latlngs = a # b # rest"
      by (cases latlngs; cases "tl latlngs") auto
    have "0 \<le> totalMeters_loop distanceTo (b # rest) 0"
      using nn by (intro totalMeters_loop_nonneg) simp_all
    moreover have "0 \<le> distanceTo a b" using nn by simp
    moreover from z have "totalMeters_loop distanceTo latlngs 0 = 0"
      by (simp only: tot)
    then have "distanceTo a b + totalMeters_loop distanceTo (b # rest) 0 = 0"
      by (simp only: l totalMeters_loop_step)
    ultimately have d0: "distanceTo a b = 0" by linarith
    show ?thesis
      using z d0 unfolding getMidpoint_def Let_def l by simp
  qed
  from pos zero show ?thesis by blast
qed

theorem getMidpoint_divisor_witness:
  "getMidpoint planar [\<lparr>lat = 0, lng = 0\<rparr>, \<lparr>lat = 0, lng = 0\<rparr>, \<lparr>lat = 3, lng = 4\<rparr>] =
     MidPoint \<lparr>lat = 3 / 2, lng = 2\<rparr> \<and>
   getMidpoint planar [\<lparr>lat = 1, lng = 1\<rparr>, \<lparr>lat = 1, lng = 1\<rparr>] = MidNotFinite"
proof -
  let ?p = "[\<lparr>lat = 0, lng = 0\<rparr>, \<lparr>lat = 0, lng = 0\<rparr>, \<lparr>lat = 3, lng = 4\<rparr>]"
  let ?q = "[\<lparr>lat = 1, lng = 1\<rparr>, \<lparr>lat = 1, lng = 1\<rparr>]"
  have n: "\<forall>a b. 0 \<le> planar a b" by (simp add: planar_def)
  have lp: "2 \<le> length ?p" and lq: "2 \<le> length ?q" by simp_all
  have tp: "totalLength_loop (segments_of planar ?p) 0 = 7"
    and tq: "totalLength_loop (segments_of planar ?q) 0 = 0"
    by (simp_all add: planar_def)
  have pos: "0 < totalLength_loop (segments_of planar ?p) 0" unfolding tp by simp
  from getMidpoint_divisor [OF lp, THEN conjunct1, rule_format, OF pos] obtain seg accumulated
    where m: "mid_segment (totalLength_loop (segments_of planar ?p) 0 / 2) 0 (segments_of planar ?p)
        = Some (seg, accumulated)"
      and g: "getMidpoint planar ?p = MidPoint (interpolate seg
        ((totalLength_loop (segments_of planar ?p) 0 / 2 - accumulated) / seg_length seg))"
    by blast
  from m have "seg = \<lparr>seg_start = \<lparr>lat = 0, lng = 0\<rparr>, seg_end = \<lparr>lat = 3, lng = 4\<rparr>, seg_length = 7\<rparr>
      \<and> accumulated = 0"
    by (auto simp: planar_def)
  with g tp have "getMidpoint planar ?p = MidPoint \<lparr>lat = 3 / 2, lng = 2\<rparr>"
    by (simp add: interpolate_def)
  moreover from getMidpoint_divisor [OF lq, THEN conjunct2, rule_format, OF conjI [OF n tq]]
  have "getMidpoint planar ?q = MidNotFinite"
    by blast
  ultimately show ?thesis by simp
qed




end
